theory Spec2Isabelle
  imports Main
begin

section \<open>The snake game of \<^verbatim>\<open>src/snake_game.py\<close>\<close>

text \<open>
  The program keeps every position as a pair of Python integers in screen pixels.
  A snake segment and the food are squares of 20 pixels, so one grid cell is 20 pixels
  wide, and the grid cell of a pixel position is its integer quotient by the block size.
  Rendering (\<^verbatim>\<open>draw\<close>, \<^verbatim>\<open>display_message\<close>, colours, fonts, the clock) changes no
  game state and is left out.
\<close>

subsection \<open>Constants\<close>

definition screen_width :: int where "screen_width = 800"
definition screen_height :: int where "screen_height = 600"
definition SNAKE_BLOCK_SIZE :: int where "SNAKE_BLOCK_SIZE = 20"
definition FOOD_BLOCK_SIZE :: int where "FOOD_BLOCK_SIZE = 20"

type_synonym pos = "int \<times> int"

text \<open>The four tuples the main loop passes to \<^verbatim>\<open>change_direction\<close>.\<close>

definition UP :: pos where "UP = (0, -1)"
definition DOWN :: pos where "DOWN = (0, 1)"
definition LEFT :: pos where "LEFT = (-1, 0)"
definition RIGHT :: pos where "RIGHT = (1, 0)"

definition cardinal :: "pos set" where
  "cardinal = {UP, DOWN, LEFT, RIGHT}"

definition opposite :: "pos \<Rightarrow> pos" where
  "opposite d = (- fst d, - snd d)"

text \<open>The grid cell of a pixel position.\<close>

definition cell_of :: "pos \<Rightarrow> pos" where
  "cell_of p = (fst p div SNAKE_BLOCK_SIZE, snd p div SNAKE_BLOCK_SIZE)"

subsection \<open>Class \<^verbatim>\<open>Snake\<close>\<close>

datatype error = IndexError

record Snake =
  length_snake :: int
  positions :: "pos list"
  direction :: pos
  score :: int

definition Snake_init :: "int \<Rightarrow> int \<Rightarrow> Snake" where
  "Snake_init x y =
     \<lparr>length_snake = 1, positions = [(x, y)], direction = (1, 0), score = 0\<rparr>"

text \<open>\<^verbatim>\<open>self.positions[0]\<close> raises IndexError on an empty list.\<close>

definition get_head_position :: "Snake \<Rightarrow> error + pos" where
  "get_head_position s =
     (case positions s of [] \<Rightarrow> Inl IndexError | p # _ \<Rightarrow> Inr p)"

text \<open>
  \<^verbatim>\<open>insert(0, new_head)\<close> puts the new head in front; \<^verbatim>\<open>pop()\<close> removes the last
  element, and the list it is called on has at least the new head.
\<close>

definition move :: "Snake \<Rightarrow> error + Snake" where
  "move s =
     (case get_head_position s of
        Inl e \<Rightarrow> Inl e
      | Inr (cur_x, cur_y) \<Rightarrow>
          (case direction s of (dx, dy) \<Rightarrow>
             (let new_head = (cur_x + dx * SNAKE_BLOCK_SIZE, cur_y + dy * SNAKE_BLOCK_SIZE);
                  ps = new_head # positions s
              in Inr (s\<lparr>positions :=
                         (if int (length ps) > length_snake s then butlast ps else ps)\<rparr>))))"

definition grow :: "Snake \<Rightarrow> Snake" where
  "grow s = s\<lparr>length_snake := length_snake s + 1, score := score s + 1\<rparr>"

definition check_collision_with_self :: "Snake \<Rightarrow> error + bool" where
  "check_collision_with_self s =
     (case get_head_position s of
        Inl e \<Rightarrow> Inl e
      | Inr head \<Rightarrow> Inr (head \<in> set (tl (positions s))))"

definition change_direction :: "pos \<Rightarrow> Snake \<Rightarrow> Snake" where
  "change_direction new_direction s =
     (if (fst new_direction * -1, snd new_direction * -1) = direction s then s
      else s\<lparr>direction := new_direction\<rparr>)"

subsection \<open>Class \<^verbatim>\<open>Food\<close> and the random source\<close>

text \<open>
  \<^verbatim>\<open>random.randrange\<close> is library code. The random source is a parameter of the model:
  an infinite tape of raw draws and a cursor that advances by one with every call.
  \<^verbatim>\<open>randrange(start, stop)\<close> returns an integer of \<open>[start, stop)\<close>, here the raw draw
  reduced into that range, so that every value of the range is the result of some draw.
\<close>

type_synonym tape = "nat \<Rightarrow> nat"

definition randrange :: "int \<Rightarrow> int \<Rightarrow> nat \<Rightarrow> int" where
  "randrange start stop r = start + int r mod (stop - start)"

record Food =
  position :: pos

text \<open>The cell that one pass of the loop body samples, from the two draws at the cursor.\<close>

definition sample :: "tape \<Rightarrow> nat \<Rightarrow> pos" where
  "sample t k =
     (randrange 0 (screen_width div FOOD_BLOCK_SIZE) (t k) * FOOD_BLOCK_SIZE,
      randrange 0 (screen_height div FOOD_BLOCK_SIZE) (t (k + 1)) * FOOD_BLOCK_SIZE)"

text \<open>
  The \<^verbatim>\<open>while True\<close> loop of \<^verbatim>\<open>randomize_position\<close>. It has no bound on the number
  of passes, so not returning is the value \<open>None\<close>. The result is the food and the
  cursor after the last draw.
\<close>

partial_function (option) randomize_position ::
  "tape \<Rightarrow> nat \<Rightarrow> Food \<Rightarrow> pos list \<Rightarrow> (Food \<times> nat) option" where
  "randomize_position t k self snake_positions =
     (if position (self\<lparr>position := sample t k\<rparr>) \<notin> set snake_positions
      then Some (self\<lparr>position := sample t k\<rparr>, k + 2)
      else randomize_position t (k + 2) (self\<lparr>position := sample t k\<rparr>) snake_positions)"

text \<open>\<^verbatim>\<open>Food.__init__\<close>: the position is first set by \<^verbatim>\<open>randomize_position\<close>.\<close>

definition Food_init :: "tape \<Rightarrow> nat \<Rightarrow> pos list \<Rightarrow> (Food \<times> nat) option" where
  "Food_init t k snake_positions =
     randomize_position t k \<lparr>position = (0, 0)\<rparr> snake_positions"

text \<open>
  Three draw sequences used as concrete inputs: one that draws 0 twice and 1 from then
  on; one that draws 20 and then 14 for ever, so that the first cell sampled is column 20,
  row 14; and one whose passes go through the cells of the grid row by row.
\<close>

definition retry_tape :: tape where "retry_tape = (\<lambda>i. if i < 2 then 0 else 1)"

definition aim_tape :: tape where "aim_tape = (\<lambda>i. if i = 0 then 20 else 14)"

definition sweep_tape :: tape where
  "sweep_tape = (\<lambda>i. if even i then (i div 2) mod 40 else (i div 2) div 40)"

subsection \<open>The globals, \<^verbatim>\<open>reset_game\<close> and the main loop\<close>

record session =
  snake :: Snake
  food :: Food
  game_active :: bool
  game_over_state :: bool
  running :: bool
  rng_pos :: nat

text \<open>
  \<^verbatim>\<open>reset_game\<close> assigns the four globals \<^verbatim>\<open>snake\<close>, \<^verbatim>\<open>food\<close>, \<^verbatim>\<open>game_active\<close>
  and \<^verbatim>\<open>game_over_state\<close>; it is given the cursor of the random source and returns the
  new one.
\<close>

definition reset_game :: "tape \<Rightarrow> nat \<Rightarrow> (Snake \<times> Food \<times> bool \<times> bool \<times> nat) option" where
  "reset_game t k =
     (let sn = Snake_init (screen_width div 2 - SNAKE_BLOCK_SIZE div 2)
                          (screen_height div 2 - SNAKE_BLOCK_SIZE div 2)
      in case Food_init t k (positions sn) of
           None \<Rightarrow> None
         | Some (f, k') \<Rightarrow> Some (sn, f, True, False, k'))"

text \<open>Lines 186 to 190: the first \<^verbatim>\<open>reset_game()\<close>, then \<^verbatim>\<open>running = True\<close>.\<close>

definition startup :: "tape \<Rightarrow> session option" where
  "startup t =
     (case reset_game t 0 of
        None \<Rightarrow> None
      | Some (sn, f, a, g, k) \<Rightarrow>
          Some \<lparr>snake = sn, food = f, game_active = a, game_over_state = g,
                running = True, rng_pos = k\<rparr>)"

datatype key = K_UP | K_DOWN | K_LEFT | K_RIGHT | K_q | K_r | K_other

datatype event = QUIT | KEYDOWN key | OTHER_EVENT

text \<open>One event of the loop at lines 195 to 206 (the game is active).\<close>

fun active_event :: "session \<Rightarrow> event \<Rightarrow> session" where
  "active_event st QUIT = st\<lparr>running := False\<rparr>"
| "active_event st (KEYDOWN K_UP) = st\<lparr>snake := change_direction (0, -1) (snake st)\<rparr>"
| "active_event st (KEYDOWN K_DOWN) = st\<lparr>snake := change_direction (0, 1) (snake st)\<rparr>"
| "active_event st (KEYDOWN K_LEFT) = st\<lparr>snake := change_direction (-1, 0) (snake st)\<rparr>"
| "active_event st (KEYDOWN K_RIGHT) = st\<lparr>snake := change_direction (1, 0) (snake st)\<rparr>"
| "active_event st _ = st"

text \<open>
  Lines 209 to 228: the move, the boundary check, the self-collision check and the food
  check. \<^verbatim>\<open>and\<close> does not evaluate its right operand when \<^verbatim>\<open>game_active\<close> is false.
\<close>

definition game_logic :: "tape \<Rightarrow> session \<Rightarrow> (error + session) option" where
  "game_logic t st =
     (case move (snake st) of
        Inl e \<Rightarrow> Some (Inl e)
      | Inr sn \<Rightarrow>
         (case get_head_position sn of
            Inl e \<Rightarrow> Some (Inl e)
          | Inr (head_x, head_y) \<Rightarrow>
             (let st1 = st\<lparr>snake := sn\<rparr>;
                  st2 = (if \<not> (0 \<le> head_x \<and> head_x < screen_width \<and>
                                0 \<le> head_y \<and> head_y < screen_height)
                         then st1\<lparr>game_active := False, game_over_state := True\<rparr>
                         else st1)
              in case (if game_active st2 then check_collision_with_self (snake st2)
                       else Inr False) of
                   Inl e \<Rightarrow> Some (Inl e)
                 | Inr hit \<Rightarrow>
                    (let st3 = (if game_active st2 \<and> hit
                                then st2\<lparr>game_active := False, game_over_state := True\<rparr>
                                else st2)
                     in case (if game_active st3 then get_head_position (snake st3)
                              else Inr (0, 0)) of
                          Inl e \<Rightarrow> Some (Inl e)
                        | Inr head \<Rightarrow>
                            if game_active st3 \<and> head = position (food st3)
                            then (case randomize_position t (rng_pos st3) (food st3)
                                         (positions (grow (snake st3))) of
                                    None \<Rightarrow> None
                                  | Some (f, k) \<Rightarrow>
                                      Some (Inr (st3\<lparr>snake := grow (snake st3),
                                                     food := f, rng_pos := k\<rparr>)))
                            else Some (Inr st3)))))"

text \<open>One event of the loop at lines 250 to 257 (the game is not active).\<close>

fun over_event :: "tape \<Rightarrow> session \<Rightarrow> event \<Rightarrow> session option" where
  "over_event t st QUIT = Some (st\<lparr>running := False\<rparr>)"
| "over_event t st (KEYDOWN k) =
     (let st1 = (if k = K_q then st\<lparr>running := False\<rparr> else st)
      in if k = K_r
         then (case reset_game t (rng_pos st1) of
                 None \<Rightarrow> None
               | Some (sn, f, a, g, k') \<Rightarrow>
                   Some (st1\<lparr>snake := sn, food := f, game_active := a,
                             game_over_state := g, rng_pos := k'\<rparr>))
         else Some st1)"
| "over_event t st OTHER_EVENT = Some st"

fun over_events :: "tape \<Rightarrow> session \<Rightarrow> event list \<Rightarrow> session option" where
  "over_events t st [] = Some st"
| "over_events t st (e # es) =
     (case over_event t st e of
        None \<Rightarrow> None
      | Some st' \<Rightarrow> over_events t st' es)"

text \<open>
  One pass of \<^verbatim>\<open>while running\<close>, given the events that \<^verbatim>\<open>pygame.event.get()\<close>
  returns in it. \<open>None\<close>: the pass does not return; \<open>Inl\<close>: an exception leaves it.
\<close>

definition loop_body :: "tape \<Rightarrow> event list \<Rightarrow> session \<Rightarrow> (error + session) option" where
  "loop_body t evs st =
     (if game_active st then game_logic t (foldl active_event st evs)
      else map_option Inr (over_events t st evs))"

text \<open>The states of the globals at the head of the \<^verbatim>\<open>while running\<close> loop.\<close>

inductive reachable :: "tape \<Rightarrow> session \<Rightarrow> bool" for t :: tape where
  start: "startup t = Some st \<Longrightarrow> reachable t st"
| pass: "reachable t st \<Longrightarrow> running st \<Longrightarrow> loop_body t evs st = Some (Inr st')
         \<Longrightarrow> reachable t st'"

text \<open>
  The states of a \<^verbatim>\<open>Snake\<close> object under the calls the main loop makes: any number of
  \<^verbatim>\<open>change_direction\<close> calls, then \<^verbatim>\<open>move\<close>, then at most one \<^verbatim>\<open>grow\<close>.
\<close>

inductive snake_reach :: "Snake \<Rightarrow> bool" where
  created: "snake_reach (Snake_init x y)"
| turned: "snake_reach s \<Longrightarrow> snake_reach (change_direction d s)"
| moved: "snake_reach s \<Longrightarrow> move s = Inr s' \<Longrightarrow> snake_reach s'"
| fed: "snake_reach s \<Longrightarrow> move s = Inr s' \<Longrightarrow> snake_reach (grow s')"

section \<open>The snake on its own\<close>

lemma move_nonempty:
  "positions s \<noteq> [] \<Longrightarrow>
   move s = Inr (s\<lparr>positions :=
      (let new_head = (fst (hd (positions s)) + fst (direction s) * SNAKE_BLOCK_SIZE,
                       snd (hd (positions s)) + snd (direction s) * SNAKE_BLOCK_SIZE)
       in if int (length (new_head # positions s)) > length_snake s
          then butlast (new_head # positions s) else new_head # positions s)\<rparr>)"
  by (cases "positions s"; cases "direction s")
     (auto simp: move_def get_head_position_def Let_def)

lemma cell_of_step:
  "cell_of (x + dx * SNAKE_BLOCK_SIZE, y + dy * SNAKE_BLOCK_SIZE) =
   (fst (cell_of (x, y)) + dx, snd (cell_of (x, y)) + dy)"
  by (simp add: cell_of_def SNAKE_BLOCK_SIZE_def)

text \<open>
  Claim C2. On a snake with a head, \<^verbatim>\<open>move\<close> returns. The new head is the old head
  plus the direction times the block size; in grid cells that is the old head's cell plus
  the direction times one. The new head is put in front of the body, the last element is
  removed exactly when the body with the new head is longer than the \<^verbatim>\<open>length\<close> field,
  and no other field changes. So the body gains one cell and loses at most one.
\<close>

theorem move_one_cell_step:
  assumes "positions s \<noteq> []"
  shows "\<exists>s' new_head.
           move s = Inr s' \<and>
           new_head = (fst (hd (positions s)) + fst (direction s) * SNAKE_BLOCK_SIZE,
                       snd (hd (positions s)) + snd (direction s) * SNAKE_BLOCK_SIZE) \<and>
           cell_of new_head = (fst (cell_of (hd (positions s))) + fst (direction s) * 1,
                               snd (cell_of (hd (positions s))) + snd (direction s) * 1) \<and>
           positions s' =
             (if int (length (new_head # positions s)) > length_snake s
              then butlast (new_head # positions s) else new_head # positions s) \<and>
           hd (positions s') = new_head \<and>
           (length (positions s') = length (positions s) + 1 \<or>
            length (positions s') = length (positions s)) \<and>
           s' = s\<lparr>positions := positions s'\<rparr>"
  using assms cell_of_step [of "fst (hd (positions s))" "fst (direction s)"
                              "snd (hd (positions s))" "snd (direction s)"]
  by (simp add: move_nonempty Let_def)

theorem move_one_cell_step_witness:
  "positions (Snake_init 390 290) \<noteq> [] \<and>
   move (Snake_init 390 290) = Inr ((Snake_init 390 290)\<lparr>positions := [(410, 290)]\<rparr>) \<and>
   cell_of (410, 290) = (20, 14) \<and> cell_of (390, 290) = (19, 14)"
  using move_one_cell_step [of "Snake_init 390 290"]
  by (auto simp: Snake_init_def SNAKE_BLOCK_SIZE_def cell_of_def)

text \<open>
  Claim C3. When the direction is one of the four cardinal tuples, \<^verbatim>\<open>change_direction\<close>
  with its opposite leaves the snake as it is, and \<^verbatim>\<open>change_direction\<close> with any of the
  other three cardinal tuples sets the direction to that tuple.
\<close>

theorem no_reversal:
  assumes "direction s \<in> cardinal"
  shows "change_direction (opposite (direction s)) s = s \<and>
         (\<forall>n \<in> cardinal. n \<noteq> opposite (direction s) \<longrightarrow>
            change_direction n s = s\<lparr>direction := n\<rparr>)"
proof -
  have keep: "change_direction (opposite (direction s)) s = s"
    by (simp add: change_direction_def opposite_def)
  have turn: "change_direction n s = s\<lparr>direction := n\<rparr>"
    if "n \<noteq> opposite (direction s)" for n
  proof -
    from that have "(fst n * -1, snd n * -1) \<noteq> direction s"
      by (auto simp: opposite_def prod_eq_iff)
    then show ?thesis by (simp add: change_direction_def)
  qed
  from keep turn show ?thesis by blast
qed

theorem no_reversal_witness:
  "direction (Snake_init 390 290) \<in> cardinal \<and> UP \<in> cardinal \<and>
   UP \<noteq> opposite (direction (Snake_init 390 290)) \<and>
   opposite (direction (Snake_init 390 290)) = LEFT \<and>
   change_direction LEFT (Snake_init 390 290) = Snake_init 390 290 \<and>
   change_direction UP (Snake_init 390 290) = (Snake_init 390 290)\<lparr>direction := UP\<rparr>"
  using no_reversal [of "Snake_init 390 290"]
  by (simp add: Snake_init_def cardinal_def UP_def DOWN_def LEFT_def RIGHT_def opposite_def)

text \<open>
  Claim C4. On a snake whose body has as many cells as its \<^verbatim>\<open>length\<close> field says
  (and at least one), \<^verbatim>\<open>grow\<close> adds one to \<^verbatim>\<open>length\<close> and one to \<^verbatim>\<open>score\<close> and
  changes nothing else, so the body is then one cell short; the next \<^verbatim>\<open>move\<close> returns
  a body of the new length.
\<close>

theorem growth_deferral:
  assumes "int (length (positions s)) = length_snake s" and "positions s \<noteq> []"
  shows "grow s = s\<lparr>length_snake := length_snake s + 1, score := score s + 1\<rparr> \<and>
         positions (grow s) = positions s \<and>
         int (length (positions (grow s))) < length_snake (grow s) \<and>
         (\<exists>s'. move (grow s) = Inr s' \<and>
               length_snake s' = length_snake s + 1 \<and>
               int (length (positions s')) = length_snake s + 1)"
  using assms by (simp add: grow_def move_nonempty Let_def)

theorem growth_deferral_witness:
  "int (length (positions (Snake_init 390 290))) = length_snake (Snake_init 390 290) \<and>
   positions (Snake_init 390 290) \<noteq> [] \<and>
   length_snake (grow (Snake_init 390 290)) = 2 \<and>
   score (grow (Snake_init 390 290)) = 1 \<and>
   positions (grow (Snake_init 390 290)) = [(390, 290)] \<and>
   (\<exists>s'. move (grow (Snake_init 390 290)) = Inr s' \<and> int (length (positions s')) = 2)"
  using growth_deferral [of "Snake_init 390 290"]
  by (auto simp: Snake_init_def)

section \<open>Placing the food\<close>

lemma sample_in_grid:
  "0 \<le> fst (sample t k) \<and> fst (sample t k) < screen_width \<and>
   0 \<le> snd (sample t k) \<and> snd (sample t k) < screen_height \<and>
   fst (sample t k) mod FOOD_BLOCK_SIZE = 0 \<and> snd (sample t k) mod FOOD_BLOCK_SIZE = 0"
proof -
  have a: "0 \<le> int (t k) mod 40 \<and> int (t k) mod 40 < 40" by simp
  have b: "0 \<le> int (t (k + 1)) mod 30 \<and> int (t (k + 1)) mod 30 < 30" by simp
  from a b show ?thesis
    unfolding sample_def randrange_def screen_width_def screen_height_def FOOD_BLOCK_SIZE_def
    by simp
qed

lemma randomize_position_result:
  assumes "randomize_position t k self excl = Some r"
  shows "\<exists>n. r = (self\<lparr>position := sample t (k + 2 * n)\<rparr>, k + 2 * n + 2) \<and>
             sample t (k + 2 * n) \<notin> set excl \<and>
             (\<forall>m<n. sample t (k + 2 * m) \<in> set excl)"
  using assms
proof (induction t k self excl r
         rule: randomize_position.raw_induct [rotated 1, consumes 1, case_names pass])
  case (pass rp t k self excl r)
  show ?case
  proof (cases "sample t k \<in> set excl")
    case False
    with pass(2) have "r = (self\<lparr>position := sample t (k + 2 * 0)\<rparr>, k + 2 * 0 + 2)"
      by simp
    with False show ?thesis by (intro exI [of _ 0]) simp
  next
    case True
    with pass(2) have "rp t (k + 2) (self\<lparr>position := sample t k\<rparr>) excl = Some r"
      by simp
    from pass(1) [OF this] obtain n where
      n: "r = (self\<lparr>position := sample t k\<rparr>\<lparr>position := sample t (k + 2 + 2 * n)\<rparr>,
               k + 2 + 2 * n + 2)"
         "sample t (k + 2 + 2 * n) \<notin> set excl"
         "\<forall>m<n. sample t (k + 2 + 2 * m) \<in> set excl"
      by blast
    have "\<forall>m<Suc n. sample t (k + 2 * m) \<in> set excl"
    proof (intro allI impI)
      fix m assume "m < Suc n"
      show "sample t (k + 2 * m) \<in> set excl"
      proof (cases m)
        case 0
        with True show ?thesis by simp
      next
        case (Suc j)
        with \<open>m < Suc n\<close> n(3) have "sample t (k + 2 + 2 * j) \<in> set excl" by simp
        with Suc show ?thesis by (simp add: add.commute add.left_commute)
      qed
    qed
    with n(1,2) show ?thesis
      by (intro exI [of _ "Suc n"]) (simp add: add.commute add.left_commute)
  qed
qed

lemma randomize_position_returns:
  "sample t (k + 2 * n) \<notin> set excl \<Longrightarrow> \<exists>r. randomize_position t k self excl = Some r"
proof (induction n arbitrary: k self)
  case 0
  then show ?case by (subst randomize_position.simps) simp
next
  case (Suc n)
  have "sample t (k + 2 + 2 * n) \<notin> set excl"
    using Suc.prems by (simp add: add.commute add.left_commute)
  from Suc.IH [OF this] show ?case
    by (subst randomize_position.simps) auto
qed




lemma free_cell_exists:
  assumes "int (length excl) <
           (screen_width div FOOD_BLOCK_SIZE) * (screen_height div FOOD_BLOCK_SIZE)"
  shows "\<exists>i j. i < 40 \<and> j < 30 \<and> (int i * FOOD_BLOCK_SIZE, int j * FOOD_BLOCK_SIZE) \<notin> set excl"
proof (rule ccontr)
  let ?g = "\<lambda>(i :: nat, j :: nat). (int i * FOOD_BLOCK_SIZE, int j * FOOD_BLOCK_SIZE)"
  let ?G = "?g ` ({..<40} \<times> {..<30})"
  assume "\<not> ?thesis"
  then have sub: "?G \<subseteq> set excl" by auto
  have "inj_on ?g ({..<40} \<times> {..<30})"
    by (auto simp: inj_on_def FOOD_BLOCK_SIZE_def)
  then have "card ?G = card ({..<40 :: nat} \<times> {..<30 :: nat})"
    by (rule card_image)
  then have "card ?G = 1200" by simp
  moreover from sub have "card ?G \<le> card (set excl)"
    by (intro card_mono) simp_all
  moreover have "card (set excl) \<le> length excl" by (rule card_length)
  ultimately show False
    using assms by (simp add: screen_width_def screen_height_def FOOD_BLOCK_SIZE_def)
qed

lemma randomize_position_returns_iff_draw:
  "(\<exists>r. randomize_position t k self excl = Some r) \<longleftrightarrow>
   (\<exists>n. sample t (k + 2 * n) \<notin> set excl)"
  using randomize_position_result [of t k self excl]
        randomize_position_returns [of t k _ excl self]
  by blast

text \<open>
  Claim C8. \<^verbatim>\<open>randomize_position\<close> returns on every list of excluded cells that is
  shorter than the number of cells of the grid. The random source is taken to be one that
  draws every cell of the grid at some pass of the loop, as a uniform source does; the
  list, the cursor and the food object are arbitrary.
\<close>

theorem randomize_position_terminates:
  assumes "int (length excluded_cells) <
           (screen_width div FOOD_BLOCK_SIZE) * (screen_height div FOOD_BLOCK_SIZE)"
    and "\<forall>i j. \<exists>n. sample t (k + 2 * n) =
           (randrange 0 (screen_width div FOOD_BLOCK_SIZE) i * FOOD_BLOCK_SIZE,
            randrange 0 (screen_height div FOOD_BLOCK_SIZE) j * FOOD_BLOCK_SIZE)"
  shows "\<exists>f k'. randomize_position t k self excluded_cells = Some (f, k')"
proof -
  from free_cell_exists [OF assms(1)] obtain i j where
    ij: "i < 40" "j < 30"
        "(int i * FOOD_BLOCK_SIZE, int j * FOOD_BLOCK_SIZE) \<notin> set excluded_cells"
    by blast
  from assms(2) obtain n where
    "sample t (k + 2 * n) =
       (randrange 0 (screen_width div FOOD_BLOCK_SIZE) i * FOOD_BLOCK_SIZE,
        randrange 0 (screen_height div FOOD_BLOCK_SIZE) j * FOOD_BLOCK_SIZE)"
    by blast
  with ij have "sample t (k + 2 * n) \<notin> set excluded_cells"
    by (simp add: randrange_def screen_width_def screen_height_def FOOD_BLOCK_SIZE_def)
  from randomize_position_returns [OF this] show ?thesis by auto
qed

lemma sample_sweep:
  "sample sweep_tape (2 * n) = (int (n mod 40) * 20, int ((n div 40) mod 30) * 20)"
  by (simp add: sample_def sweep_tape_def randrange_def FOOD_BLOCK_SIZE_def
        screen_width_def screen_height_def zmod_int)

lemma sweep_draws_every_cell:
  "\<forall>i j. \<exists>n. sample sweep_tape (0 + 2 * n) =
           (randrange 0 (screen_width div FOOD_BLOCK_SIZE) i * FOOD_BLOCK_SIZE,
            randrange 0 (screen_height div FOOD_BLOCK_SIZE) j * FOOD_BLOCK_SIZE)"
proof (intro allI)
  fix i j :: nat
  let ?n = "(j mod 30) * 40 + i mod 40"
  have "?n mod 40 = i mod 40" by simp
  moreover have "(?n div 40) mod 30 = j mod 30" by simp
  ultimately have "sample sweep_tape (0 + 2 * ?n) =
           (randrange 0 (screen_width div FOOD_BLOCK_SIZE) i * FOOD_BLOCK_SIZE,
            randrange 0 (screen_height div FOOD_BLOCK_SIZE) j * FOOD_BLOCK_SIZE)"
    unfolding add_0 sample_sweep
    by (simp add: randrange_def screen_width_def screen_height_def FOOD_BLOCK_SIZE_def
          zmod_int)
  then show "\<exists>n. sample sweep_tape (0 + 2 * n) =
           (randrange 0 (screen_width div FOOD_BLOCK_SIZE) i * FOOD_BLOCK_SIZE,
            randrange 0 (screen_height div FOOD_BLOCK_SIZE) j * FOOD_BLOCK_SIZE)" ..
qed

lemma sweep_run:
  "randomize_position sweep_tape 0 \<lparr>position = (0, 0)\<rparr> [(0, 0), (20, 0)] =
   Some (\<lparr>position = (40, 0)\<rparr>, 6)"
proof -
  have a: "sample sweep_tape 0 = (0, 0)" using sample_sweep [of 0] by simp
  have b: "sample sweep_tape 2 = (20, 0)" using sample_sweep [of 1] by simp
  have c: "sample sweep_tape 4 = (40, 0)" using sample_sweep [of 2] by simp
  have "randomize_position sweep_tape 0 \<lparr>position = (0, 0)\<rparr> [(0, 0), (20, 0)] =
        randomize_position sweep_tape 2 \<lparr>position = (0, 0)\<rparr> [(0, 0), (20, 0)]"
    by (subst randomize_position.simps) (simp add: a numeral_2_eq_2)
  also have "\<dots> = randomize_position sweep_tape 4 \<lparr>position = (20, 0)\<rparr> [(0, 0), (20, 0)]"
    by (subst randomize_position.simps) (simp add: b)
  also have "\<dots> = Some (\<lparr>position = (40, 0)\<rparr>, 6)"
    by (subst randomize_position.simps) (simp add: c)
  finally show ?thesis .
qed

theorem randomize_position_terminates_witness:
  "int (length [(0 :: int, 0 :: int), (20, 0)]) <
     (screen_width div FOOD_BLOCK_SIZE) * (screen_height div FOOD_BLOCK_SIZE) \<and>
   (\<forall>i j. \<exists>n. sample sweep_tape (0 + 2 * n) =
           (randrange 0 (screen_width div FOOD_BLOCK_SIZE) i * FOOD_BLOCK_SIZE,
            randrange 0 (screen_height div FOOD_BLOCK_SIZE) j * FOOD_BLOCK_SIZE)) \<and>
   (\<exists>f k'. randomize_position sweep_tape 0 \<lparr>position = (0, 0)\<rparr> [(0, 0), (20, 0)] =
            Some (f, k')) \<and>
   randomize_position sweep_tape 0 \<lparr>position = (0, 0)\<rparr> [(0, 0), (20, 0)] =
     Some (\<lparr>position = (40, 0)\<rparr>, 6)"
proof -
  have h: "int (length [(0 :: int, 0 :: int), (20, 0)]) <
           (screen_width div FOOD_BLOCK_SIZE) * (screen_height div FOOD_BLOCK_SIZE)"
    by (simp add: screen_width_def screen_height_def FOOD_BLOCK_SIZE_def)
  from randomize_position_terminates [OF h sweep_draws_every_cell, of "\<lparr>position = (0, 0)\<rparr>"]
       h sweep_draws_every_cell sweep_run
  show ?thesis by blast
qed

section \<open>The main loop\<close>

lemma randomize_position_first_draw:
  "sample t k \<notin> set excl \<Longrightarrow>
   randomize_position t k self excl = Some (self\<lparr>position := sample t k\<rparr>, k + 2)"
  by (subst randomize_position.simps) simp

lemma sample_aligned:
  "fst (sample t k) mod 20 = 0 \<and> snd (sample t k) mod 20 = 0"
  using sample_in_grid [of t k] by (simp add: FOOD_BLOCK_SIZE_def)

lemma sample_off_lattice:
  assumes "\<forall>p \<in> set excl. fst p mod 20 \<noteq> 0"
  shows "sample t k \<notin> set excl"
  using assms sample_aligned [of t k] by auto

lemma reset_game_returns:
  "reset_game t k =
     Some (Snake_init 390 290, \<lparr>position = sample t k\<rparr>, True, False, k + 2)"
proof -
  have "sample t k \<notin> set [(390, 290)]"
    by (rule sample_off_lattice) simp
  then show ?thesis
    by (simp add: reset_game_def Food_init_def Snake_init_def screen_width_def
          screen_height_def SNAKE_BLOCK_SIZE_def randomize_position_first_draw)
qed

lemma startup_returns:
  "startup t =
     Some \<lparr>snake = Snake_init 390 290, food = \<lparr>position = sample t 0\<rparr>, game_active = True,
           game_over_state = False, running = True, rng_pos = 2\<rparr>"
  by (simp add: startup_def reset_game_returns)

text \<open>
  The food check compares the head and the position of the food for equality. With the
  food put by hand one block to the right of the head of a reset game, a position that
  \<^verbatim>\<open>randomize_position\<close> never returns, a pass of the main loop with no input moves
  the head there, brings the score to 1 and the length to 2 and replaces the food; the
  next pass gives the body of two cells.
\<close>

lemma food_check_on_equal_positions:
  "\<exists>sn f a g k' s1 s2.
     reset_game t k = Some (sn, f, a, g, k') \<and>
     positions sn = [(390, 290)] \<and> length_snake sn = 1 \<and> direction sn = RIGHT \<and>
     score sn = 0 \<and> a \<and>
     loop_body t []
       \<lparr>snake = sn, food = f\<lparr>position := (390 + SNAKE_BLOCK_SIZE, 290)\<rparr>, game_active = a,
        game_over_state = g, running = r, rng_pos = k'\<rparr> = Some (Inr s1) \<and>
     positions (snake s1) = [(390 + SNAKE_BLOCK_SIZE, 290)] \<and>
     score (snake s1) = 1 \<and> length_snake (snake s1) = 2 \<and>
     position (food s1) \<notin> set (positions (snake s1)) \<and>
     game_active s1 \<and>
     loop_body t [] s1 = Some (Inr s2) \<and>
     positions (snake s2) = [(390 + 2 * SNAKE_BLOCK_SIZE, 290), (390 + SNAKE_BLOCK_SIZE, 290)] \<and>
     int (length (positions (snake s2))) = length_snake (snake s2) \<and>
     game_active s2"
proof -
  let ?sn = "Snake_init 390 290"
  let ?s0 = "\<lparr>snake = ?sn, food = \<lparr>position = (390 + SNAKE_BLOCK_SIZE, 290)\<rparr>,
              game_active = True, game_over_state = False, running = r,
              rng_pos = k + 2\<rparr>"
  let ?s1 = "?s0\<lparr>snake := \<lparr>length_snake = 2, positions = [(410, 290)],
                               direction = (1, 0), score = 1\<rparr>,
                 food := \<lparr>position = sample t (k + 2)\<rparr>, rng_pos := k + 4\<rparr>"
  let ?s2 = "?s1\<lparr>snake := \<lparr>length_snake = 2, positions = [(430, 290), (410, 290)],
                               direction = (1, 0), score = 1\<rparr>\<rparr>"
  have free: "sample t (k + 2) \<notin> set [(410, 290)]"
    by (rule sample_off_lattice) simp
  have ne: "sample t (k + 2) \<noteq> (430, 290)"
    using sample_aligned [of t "k + 2"] by auto
  have t1: "loop_body t [] ?s0 = Some (Inr ?s1)"
    using free
    by (simp add: loop_body_def game_logic_def move_def get_head_position_def
          check_collision_with_self_def grow_def Snake_init_def SNAKE_BLOCK_SIZE_def
          screen_width_def screen_height_def randomize_position_first_draw)
  have t2: "loop_body t [] ?s1 = Some (Inr ?s2)"
    using ne
    by (simp add: loop_body_def game_logic_def move_def get_head_position_def
          check_collision_with_self_def SNAKE_BLOCK_SIZE_def
          screen_width_def screen_height_def)
  show ?thesis
    apply (rule exI [of _ ?sn], rule exI [of _ "\<lparr>position = sample t k\<rparr>"])
    apply (rule exI [of _ True], rule exI [of _ False], rule exI [of _ "k + 2"])
    apply (rule exI [of _ ?s1], rule exI [of _ ?s2])
    using t1 t2 free
    apply (simp add: reset_game_returns Snake_init_def RIGHT_def SNAKE_BLOCK_SIZE_def)
    done
qed

lemma active_events_keep:
  "food (foldl active_event st evs) = food st \<and>
   rng_pos (foldl active_event st evs) = rng_pos st \<and>
   game_active (foldl active_event st evs) = game_active st \<and>
   game_over_state (foldl active_event st evs) = game_over_state st \<and>
   positions (snake (foldl active_event st evs)) = positions (snake st) \<and>
   length_snake (snake (foldl active_event st evs)) = length_snake (snake st) \<and>
   score (snake (foldl active_event st evs)) = score (snake st)"
proof (induction evs arbitrary: st)
  case Nil
  show ?case by simp
next
  case (Cons e evs)
  have "food (active_event st e) = food st \<and>
        rng_pos (active_event st e) = rng_pos st \<and>
        game_active (active_event st e) = game_active st \<and>
        game_over_state (active_event st e) = game_over_state st \<and>
        positions (snake (active_event st e)) = positions (snake st) \<and>
        length_snake (snake (active_event st e)) = length_snake (snake st) \<and>
        score (snake (active_event st e)) = score (snake st)"
    by (cases "(st, e)" rule: active_event.cases) (simp_all add: change_direction_def)
  with Cons.IH [of "active_event st e"] show ?case by simp
qed

lemma move_keeps:
  "move s = Inr s' \<Longrightarrow>
   length_snake s' = length_snake s \<and> score s' = score s \<and> direction s' = direction s"
  by (auto simp: move_def Let_def split: sum.splits prod.splits)

text \<open>
  Claim C5. In a pass of the main loop of an active game where the head after
  \<^verbatim>\<open>move\<close> is outside the screen, the game stops being active and
  \<^verbatim>\<open>game_over_state\<close> is set; nothing else happens after the move: the food, the
  cursor of the random source, the score and the length are as before the pass.
\<close>

theorem boundary_death_precedence:
  assumes "game_active st"
    and "move (snake (foldl active_event st evs)) = Inr sn"
    and "get_head_position sn = Inr (head_x, head_y)"
    and "\<not> (0 \<le> head_x \<and> head_x < screen_width \<and> 0 \<le> head_y \<and> head_y < screen_height)"
  shows "\<exists>st'. loop_body t evs st = Some (Inr st') \<and>
           st' = (foldl active_event st evs)
                   \<lparr>snake := sn, game_active := False, game_over_state := True\<rparr> \<and>
           \<not> game_active st' \<and> game_over_state st' \<and>
           food st' = food st \<and> rng_pos st' = rng_pos st \<and>
           score (snake st') = score (snake st) \<and>
           length_snake (snake st') = length_snake (snake st)"
proof -
  have "loop_body t evs st =
        Some (Inr ((foldl active_event st evs)
                     \<lparr>snake := sn, game_active := False, game_over_state := True\<rparr>))"
    using assms active_events_keep [of st evs]
    by (simp add: loop_body_def game_logic_def)
  with move_keeps [OF assms(2)] active_events_keep [of st evs] show ?thesis by simp
qed

theorem boundary_death_precedence_witness:
  "game_active
     \<lparr>snake = Snake_init 790 290, food = \<lparr>position = (0, 0)\<rparr>, game_active = True,
      game_over_state = False, running = True, rng_pos = 2\<rparr> \<and>
   \<not> (810 < screen_width) \<and>
   loop_body retry_tape [KEYDOWN K_UP, KEYDOWN K_DOWN, KEYDOWN K_RIGHT]
     \<lparr>snake = Snake_init 790 290, food = \<lparr>position = (0, 0)\<rparr>, game_active = True,
      game_over_state = False, running = True, rng_pos = 2\<rparr> =
   Some (Inr \<lparr>snake = Snake_init 810 290, food = \<lparr>position = (0, 0)\<rparr>,
              game_active = False, game_over_state = True, running = True, rng_pos = 2\<rparr>)"
proof -
  let ?st = "\<lparr>snake = Snake_init 790 290, food = \<lparr>position = (0, 0)\<rparr>, game_active = True,
              game_over_state = False, running = True, rng_pos = 2\<rparr>"
  let ?evs = "[KEYDOWN K_UP, KEYDOWN K_DOWN, KEYDOWN K_RIGHT]"
  have ev: "foldl active_event ?st ?evs = ?st"
    by (simp add: change_direction_def Snake_init_def)
  have mv: "move (snake (foldl active_event ?st ?evs)) = Inr (Snake_init 810 290)"
    unfolding ev
    by (simp add: move_def get_head_position_def Snake_init_def SNAKE_BLOCK_SIZE_def)
  have hd: "get_head_position (Snake_init 810 290) = Inr (810, 290)"
    by (simp add: get_head_position_def Snake_init_def)
  have out: "\<not> (0 \<le> (810 :: int) \<and> 810 < screen_width \<and> 0 \<le> (290 :: int) \<and>
                 290 < screen_height)"
    by (simp add: screen_width_def)
  have act: "game_active ?st" by simp
  from boundary_death_precedence [OF act mv hd out, of retry_tape] ev out
  show ?thesis by (simp add: screen_width_def)
qed

lemma over_events_no_restart:
  "KEYDOWN K_r \<notin> set evs \<Longrightarrow>
   over_events t st evs =
     Some (st\<lparr>running := running st \<and> QUIT \<notin> set evs \<and> KEYDOWN K_q \<notin> set evs\<rparr>)"
proof (induction evs arbitrary: st)
  case Nil
  show ?case by simp
next
  case (Cons e evs)
  then have no_r: "KEYDOWN K_r \<notin> set evs" and e: "e \<noteq> KEYDOWN K_r" by auto
  have step: "over_event t st e =
              Some (st\<lparr>running := running st \<and> e \<noteq> QUIT \<and> e \<noteq> KEYDOWN K_q\<rparr>)"
    using e by (cases "(t, st, e)" rule: over_event.cases) auto
  show ?case
    by (simp add: step Cons.IH [OF no_r]) (auto intro: session.equality)
qed

text \<open>
  Claim C6. In a pass of the main loop of a game that is not active, as long as the
  events hold no press of R, the snake, the food and the two game flags are unchanged,
  whatever keys are pressed, and only \<^verbatim>\<open>running\<close> can change, to false on a quit
  event or a press of Q. A pass that ends with an active game has had a press of R.
\<close>

theorem game_over_freeze:
  assumes "\<not> game_active st"
  shows "(KEYDOWN K_r \<notin> set evs \<longrightarrow>
            loop_body t evs st =
              Some (Inr (st\<lparr>running := running st \<and> QUIT \<notin> set evs \<and>
                                          KEYDOWN K_q \<notin> set evs\<rparr>))) \<and>
         (\<forall>st'. loop_body t evs st = Some (Inr st') \<and> game_active st' \<longrightarrow>
                KEYDOWN K_r \<in> set evs)"
proof -
  have a: "loop_body t evs st =
             Some (Inr (st\<lparr>running := running st \<and> QUIT \<notin> set evs \<and>
                                         KEYDOWN K_q \<notin> set evs\<rparr>))"
    if "KEYDOWN K_r \<notin> set evs"
    using assms that by (simp add: loop_body_def over_events_no_restart)
  have b: "KEYDOWN K_r \<in> set evs"
    if "loop_body t evs st = Some (Inr st')" and "game_active st'" for st'
  proof (rule ccontr)
    assume "KEYDOWN K_r \<notin> set evs"
    from a [OF this] that assms show False by auto
  qed
  from a b show ?thesis by blast
qed

theorem game_over_freeze_witness:
  "\<not> game_active
      \<lparr>snake = Snake_init 810 290, food = \<lparr>position = (0, 0)\<rparr>, game_active = False,
       game_over_state = True, running = True, rng_pos = 2\<rparr> \<and>
   KEYDOWN K_r \<notin> set [KEYDOWN K_LEFT, OTHER_EVENT, KEYDOWN K_other] \<and>
   loop_body retry_tape [KEYDOWN K_LEFT, OTHER_EVENT, KEYDOWN K_other]
     \<lparr>snake = Snake_init 810 290, food = \<lparr>position = (0, 0)\<rparr>, game_active = False,
      game_over_state = True, running = True, rng_pos = 2\<rparr> =
   Some (Inr \<lparr>snake = Snake_init 810 290, food = \<lparr>position = (0, 0)\<rparr>,
              game_active = False, game_over_state = True, running = True, rng_pos = 2\<rparr>) \<and>
   loop_body retry_tape [KEYDOWN K_r]
     \<lparr>snake = Snake_init 810 290, food = \<lparr>position = (0, 0)\<rparr>, game_active = False,
      game_over_state = True, running = True, rng_pos = 2\<rparr> =
   Some (Inr \<lparr>snake = Snake_init 390 290, food = \<lparr>position = (20, 20)\<rparr>,
              game_active = True, game_over_state = False, running = True, rng_pos = 4\<rparr>) \<and>
   game_active
      \<lparr>snake = Snake_init 390 290, food = \<lparr>position = (20, 20)\<rparr>,
       game_active = True, game_over_state = False, running = True, rng_pos = 4\<rparr> \<and>
   KEYDOWN K_r \<in> set [KEYDOWN K_r]"
proof -
  let ?st = "\<lparr>snake = Snake_init 810 290, food = \<lparr>position = (0, 0)\<rparr>,
              game_active = False, game_over_state = True, running = True, rng_pos = 2\<rparr>"
  have over: "\<not> game_active ?st" by simp
  have s2: "sample retry_tape 2 = (20, 20)"
    by (simp add: sample_def retry_tape_def randrange_def FOOD_BLOCK_SIZE_def
          screen_width_def screen_height_def)
  have restart: "loop_body retry_tape [KEYDOWN K_r] ?st =
     Some (Inr \<lparr>snake = Snake_init 390 290, food = \<lparr>position = (20, 20)\<rparr>,
                game_active = True, game_over_state = False, running = True, rng_pos = 4\<rparr>)"
    by (simp add: loop_body_def reset_game_returns s2)
  from game_over_freeze [OF over, of "[KEYDOWN K_LEFT, OTHER_EVENT, KEYDOWN K_other]" retry_tape]
       game_over_freeze [OF over, of "[KEYDOWN K_r]" retry_tape] restart
  show ?thesis by simp
qed

section \<open>Invariants of the reachable states\<close>

lemma game_logic_result:
  assumes "game_logic t st = Some (Inr st')"
  shows "\<exists>sn. move (snake st) = Inr sn \<and> running st' = running st \<and>
           ((snake st' = sn \<and> food st' = food st \<and> rng_pos st' = rng_pos st) \<or>
            (get_head_position sn = Inr (position (food st)) \<and> snake st' = grow sn \<and>
             (\<exists>k. randomize_position t (rng_pos st) (food st) (positions (grow sn)) =
                    Some (food st', k))))"
  using assms unfolding game_logic_def
  by (auto simp: Let_def split: sum.splits prod.splits if_splits option.splits)

lemma over_event_result:
  assumes "over_event t st e = Some st'"
  shows "(snake st' = snake st \<and> food st' = food st) \<or>
         (snake st' = Snake_init 390 290 \<and> (\<exists>k. food st' = \<lparr>position = sample t k\<rparr>))"
  using assms
  by (cases "(t, st, e)" rule: over_event.cases)
     (auto simp: reset_game_returns Let_def split: if_splits)

lemma over_events_result:
  assumes "over_events t st evs = Some st'"
  shows "(snake st' = snake st \<and> food st' = food st) \<or>
         (snake st' = Snake_init 390 290 \<and> (\<exists>k. food st' = \<lparr>position = sample t k\<rparr>))"
  using assms
proof (induction evs arbitrary: st)
  case Nil
  then show ?case by simp
next
  case (Cons e evs)
  then obtain st1 where e: "over_event t st e = Some st1"
    and rest: "over_events t st1 evs = Some st'"
    by (auto split: option.splits)
  from Cons.IH [OF rest] over_event_result [OF e] show ?case by auto
qed

lemma move_result:
  assumes "move s = Inr s'"
  shows "\<exists>h rest. positions s = h # rest \<and>
           set (positions s') \<subseteq>
             insert (fst h + fst (direction s) * 20, snd h + snd (direction s) * 20)
                    (set (positions s)) \<and>
           positions s' \<noteq> [] \<and>
           length_snake s' = length_snake s \<and>
           (int (length (positions s)) \<le> length_snake s \<and>
            length_snake s \<le> int (length (positions s)) + 1 \<longrightarrow>
              int (length (positions s')) = length_snake s)"
proof -
  from assms obtain h rest where hr: "positions s = h # rest"
    by (cases "positions s") (auto simp: move_def get_head_position_def)
  define nh where "nh = (fst h + fst (direction s) * 20, snd h + snd (direction s) * 20)"
  from hr have ne: "positions s \<noteq> []" by simp
  have ps': "positions s' =
             (if int (length (nh # h # rest)) > length_snake s
              then butlast (nh # h # rest) else nh # h # rest)"
    and len: "length_snake s' = length_snake s"
    using assms unfolding move_nonempty [OF ne]
    by (auto simp: hr nh_def Let_def SNAKE_BLOCK_SIZE_def)
  have sub: "set (positions s') \<subseteq> insert nh (set (positions s))"
  proof (cases "int (length (nh # h # rest)) > length_snake s")
    case True
    then have "positions s' = butlast (nh # h # rest)" by (simp add: ps')
    then have "set (positions s') \<subseteq> set (nh # h # rest)"
      by (auto dest: in_set_butlastD)
    then show ?thesis by (simp add: hr)
  next
    case False
    then show ?thesis by (simp add: ps' hr)
  qed
  have nonempty: "positions s' \<noteq> []" by (simp add: ps')
  have exact: "int (length (positions s')) = length_snake s"
    if "int (length (positions s)) \<le> length_snake s"
       "length_snake s \<le> int (length (positions s)) + 1"
    using that by (simp add: ps' hr)
  from hr sub nonempty len exact show ?thesis
    unfolding nh_def by blast
qed

lemma snake_reach_bounds:
  assumes "snake_reach s"
  shows "positions s \<noteq> [] \<and> int (length (positions s)) \<le> length_snake s \<and>
         length_snake s \<le> int (length (positions s)) + 1"
  using assms
proof (induction rule: snake_reach.induct)
  case (created x y)
  show ?case by (simp add: Snake_init_def)
next
  case (turned s d)
  then show ?case by (simp add: change_direction_def)
next
  case (moved s s')
  from move_result [OF moved.hyps(2)] moved.IH show ?case by auto
next
  case (fed s s')
  from move_result [OF fed.hyps(2)] fed.IH show ?case by (auto simp: grow_def)
qed

lemma active_events_snake_reach:
  "snake_reach (snake st) \<Longrightarrow> snake_reach (snake (foldl active_event st evs))"
proof (induction evs arbitrary: st)
  case Nil
  then show ?case by simp
next
  case (Cons e evs)
  have "snake_reach (snake (active_event st e))"
    using Cons.prems
    by (cases "(st, e)" rule: active_event.cases) (simp_all add: snake_reach.turned)
  from Cons.IH [OF this] show ?case by simp
qed

lemma reachable_snake_reach:
  assumes "reachable t st"
  shows "snake_reach (snake st)"
  using assms
proof (induction rule: reachable.induct)
  case (start st)
  then show ?case by (auto simp: startup_returns snake_reach.created)
next
  case (pass st evs st')
  show ?case
  proof (cases "game_active st")
    case True
    with pass.hyps(3) have "game_logic t (foldl active_event st evs) = Some (Inr st')"
      by (simp add: loop_body_def)
    from game_logic_result [OF this] obtain sn where
      mv: "move (snake (foldl active_event st evs)) = Inr sn"
      and sn: "snake st' = sn \<or> snake st' = grow sn"
      by auto
    from active_events_snake_reach [OF pass.IH, of evs] mv sn show ?thesis
      by (auto intro: snake_reach.moved snake_reach.fed)
  next
    case False
    with pass.hyps(3) have "over_events t st evs = Some st'"
      by (auto simp: loop_body_def)
    from over_events_result [OF this] pass.IH show ?thesis
      by (auto simp: snake_reach.created)
  qed
qed

text \<open>
  Claim C9. In every state of the snake that the calls of the main loop produce (any
  \<^verbatim>\<open>change_direction\<close> calls, then \<^verbatim>\<open>move\<close>, then at most one \<^verbatim>\<open>grow\<close>), the
  body has at most \<^verbatim>\<open>length\<close> cells; a \<^verbatim>\<open>move\<close> from such a state, which in a pass
  of the loop comes before any \<^verbatim>\<open>grow\<close>, returns a body of exactly \<^verbatim>\<open>length\<close>
  cells and leaves \<^verbatim>\<open>length\<close> as it is. The snake of every state of the globals at
  the head of the main loop is such a state.
\<close>

theorem length_invariant:
  "(snake_reach s \<longrightarrow>
      int (length (positions s)) \<le> length_snake s \<and>
      (\<forall>s'. move s = Inr s' \<longrightarrow>
         int (length (positions s')) = length_snake s' \<and> length_snake s' = length_snake s)) \<and>
   (reachable t st \<longrightarrow> snake_reach (snake st))"
proof -
  have "int (length (positions s')) = length_snake s' \<and> length_snake s' = length_snake s"
    if "snake_reach s" and "move s = Inr s'" for s'
    using snake_reach_bounds [OF that(1)] move_result [OF that(2)] by auto
  with snake_reach_bounds [of s] reachable_snake_reach [of t st] show ?thesis by blast
qed

lemma startup_retry:
  "startup retry_tape =
     Some \<lparr>snake = Snake_init 390 290, food = \<lparr>position = (0, 0)\<rparr>, game_active = True,
           game_over_state = False, running = True, rng_pos = 2\<rparr>"
  by (simp add: startup_returns sample_def retry_tape_def randrange_def)

theorem length_invariant_witness:
  "snake_reach (grow (Snake_init 410 290)) \<and>
   int (length (positions (grow (Snake_init 410 290)))) \<le>
     length_snake (grow (Snake_init 410 290)) \<and>
   move (grow (Snake_init 410 290)) =
     Inr \<lparr>length_snake = 2, positions = [(430, 290), (410, 290)], direction = (1, 0),
          score = 1\<rparr> \<and>
   int (length [(430 :: int, 290 :: int), (410, 290)]) = 2 \<and>
   reachable retry_tape
     \<lparr>snake = Snake_init 390 290, food = \<lparr>position = (0, 0)\<rparr>, game_active = True,
      game_over_state = False, running = True, rng_pos = 2\<rparr> \<and>
   snake_reach (Snake_init 390 290)"
proof -
  have mv0: "move (Snake_init 390 290) = Inr (Snake_init 410 290)"
    by (simp add: move_def get_head_position_def Snake_init_def SNAKE_BLOCK_SIZE_def)
  have a: "snake_reach (grow (Snake_init 410 290))"
    by (rule snake_reach.fed [OF snake_reach.created mv0])
  have mv: "move (grow (Snake_init 410 290)) =
     Inr \<lparr>length_snake = 2, positions = [(430, 290), (410, 290)], direction = (1, 0),
          score = 1\<rparr>"
    by (simp add: move_def get_head_position_def Snake_init_def grow_def SNAKE_BLOCK_SIZE_def)
  have r: "reachable retry_tape
     \<lparr>snake = Snake_init 390 290, food = \<lparr>position = (0, 0)\<rparr>, game_active = True,
      game_over_state = False, running = True, rng_pos = 2\<rparr>"
    by (rule reachable.start [OF startup_retry])
  from length_invariant [of "grow (Snake_init 410 290)" retry_tape
      "\<lparr>snake = Snake_init 390 290, food = \<lparr>position = (0, 0)\<rparr>, game_active = True,
        game_over_state = False, running = True, rng_pos = 2\<rparr>"] a mv r
  show ?thesis by simp
qed

lemma reachable_lattice:
  assumes "reachable t st"
  shows "(\<forall>p \<in> set (positions (snake st)). fst p mod 20 = 10 \<and> snd p mod 20 = 10) \<and>
         fst (position (food st)) mod 20 = 0 \<and> snd (position (food st)) mod 20 = 0"
  using assms
proof (induction rule: reachable.induct)
  case (start st)
  then show ?case
    using sample_aligned [of t 0] by (auto simp: startup_returns Snake_init_def)
next
  case (pass st evs st')
  show ?case
  proof (cases "game_active st")
    case True
    let ?st1 = "foldl active_event st evs"
    from True pass.hyps(3) have "game_logic t ?st1 = Some (Inr st')"
      by (simp add: loop_body_def)
    from game_logic_result [OF this] obtain sn where
      mv: "move (snake ?st1) = Inr sn"
      and sn: "positions (snake st') = positions sn"
      and fd: "food st' = food st \<or>
               (\<exists>k. randomize_position t (rng_pos ?st1) (food ?st1) (positions (grow sn)) =
                     Some (food st', k))"
      using active_events_keep [of st evs] by (auto simp: grow_def)
    from move_result [OF mv] obtain h rest where
      hr: "positions (snake ?st1) = h # rest"
      and sub: "set (positions sn) \<subseteq>
                insert (fst h + fst (direction (snake ?st1)) * 20,
                        snd h + snd (direction (snake ?st1)) * 20)
                       (set (positions (snake ?st1)))"
      by blast
    have old: "\<forall>p \<in> set (positions (snake ?st1)). fst p mod 20 = 10 \<and> snd p mod 20 = 10"
      using pass.IH active_events_keep [of st evs] by simp
    with hr have h: "fst h mod 20 = 10 \<and> snd h mod 20 = 10" by simp
    have new: "(fst h + dx * 20) mod 20 = 10 \<and> (snd h + dy * 20) mod 20 = 10" for dx dy
      using h by simp
    have body: "\<forall>p \<in> set (positions (snake st')). fst p mod 20 = 10 \<and> snd p mod 20 = 10"
    proof
      fix p assume "p \<in> set (positions (snake st'))"
      with sn sub have "p = (fst h + fst (direction (snake ?st1)) * 20,
                             snd h + snd (direction (snake ?st1)) * 20) \<or>
                        p \<in> set (positions (snake ?st1))"
        by auto
      with old new show "fst p mod 20 = 10 \<and> snd p mod 20 = 10" by auto
    qed
    have "fst (position (food st')) mod 20 = 0 \<and> snd (position (food st')) mod 20 = 0"
      using fd
    proof
      assume "food st' = food st"
      with pass.IH show ?thesis by simp
    next
      assume "\<exists>k. randomize_position t (rng_pos ?st1) (food ?st1) (positions (grow sn)) =
                   Some (food st', k)"
      then obtain k where
        "randomize_position t (rng_pos ?st1) (food ?st1) (positions (grow sn)) =
           Some (food st', k)" ..
      from randomize_position_result [OF this] obtain n where
        "position (food st') = sample t (rng_pos ?st1 + 2 * n)" by auto
      with sample_aligned [of t "rng_pos ?st1 + 2 * n"] show ?thesis by simp
    qed
    with body show ?thesis by simp
  next
    case False
    with pass.hyps(3) have "over_events t st evs = Some st'"
      by (auto simp: loop_body_def)
    from over_events_result [OF this] show ?thesis
    proof
      assume "snake st' = snake st \<and> food st' = food st"
      with pass.IH show ?thesis by simp
    next
      assume "snake st' = Snake_init 390 290 \<and> (\<exists>k. food st' = \<lparr>position = sample t k\<rparr>)"
      then obtain k where "snake st' = Snake_init 390 290"
        and "food st' = \<lparr>position = sample t k\<rparr>" by blast
      with sample_aligned [of t k] show ?thesis by (simp add: Snake_init_def)
    qed
  qed
qed

text \<open>
  Claim C10. The start position of \<^verbatim>\<open>reset_game\<close> is (390, 290). In every state of
  the globals at the head of the main loop, both coordinates of every body cell are
  congruent modulo the snake block size to those of the start position, and both
  coordinates of the food are multiples of the food block size. So the food is never
  the head of the snake, nor any other cell of its body.
\<close>

theorem coordinate_lattice_invariant:
  assumes "reachable t st"
  shows "(screen_width div 2 - SNAKE_BLOCK_SIZE div 2,
          screen_height div 2 - SNAKE_BLOCK_SIZE div 2) = (390, 290) \<and>
         (\<forall>p \<in> set (positions (snake st)).
            fst p mod SNAKE_BLOCK_SIZE =
              (screen_width div 2 - SNAKE_BLOCK_SIZE div 2) mod SNAKE_BLOCK_SIZE \<and>
            snd p mod SNAKE_BLOCK_SIZE =
              (screen_height div 2 - SNAKE_BLOCK_SIZE div 2) mod SNAKE_BLOCK_SIZE) \<and>
         fst (position (food st)) mod FOOD_BLOCK_SIZE = 0 \<and>
         snd (position (food st)) mod FOOD_BLOCK_SIZE = 0 \<and>
         get_head_position (snake st) \<noteq> Inr (position (food st)) \<and>
         position (food st) \<notin> set (positions (snake st))"
proof -
  from reachable_lattice [OF assms] have
    body: "\<forall>p \<in> set (positions (snake st)). fst p mod 20 = 10 \<and> snd p mod 20 = 10"
    and fd: "fst (position (food st)) mod 20 = 0" "snd (position (food st)) mod 20 = 0"
    by simp_all
  from body fd have off: "position (food st) \<notin> set (positions (snake st))" by auto
  then have "get_head_position (snake st) \<noteq> Inr (position (food st))"
    by (cases "positions (snake st)") (auto simp: get_head_position_def)
  with body fd off show ?thesis
    by (simp add: screen_width_def screen_height_def SNAKE_BLOCK_SIZE_def
          FOOD_BLOCK_SIZE_def)
qed

theorem coordinate_lattice_invariant_witness:
  "reachable retry_tape
     \<lparr>snake = Snake_init 410 290, food = \<lparr>position = (0, 0)\<rparr>, game_active = True,
      game_over_state = False, running = True, rng_pos = 2\<rparr> \<and>
   (410, 290) \<in> set (positions (Snake_init 410 290)) \<and>
   (410 :: int) mod SNAKE_BLOCK_SIZE = 390 mod SNAKE_BLOCK_SIZE \<and>
   (0 :: int) mod FOOD_BLOCK_SIZE = 0 \<and>
   get_head_position (Snake_init 410 290) \<noteq> Inr (0, 0)"
proof -
  let ?s0 = "\<lparr>snake = Snake_init 390 290, food = \<lparr>position = (0, 0)\<rparr>, game_active = True,
              game_over_state = False, running = True, rng_pos = 2\<rparr>"
  let ?s1 = "\<lparr>snake = Snake_init 410 290, food = \<lparr>position = (0, 0)\<rparr>, game_active = True,
              game_over_state = False, running = True, rng_pos = 2\<rparr>"
  have r0: "reachable retry_tape ?s0"
    by (rule reachable.start [OF startup_retry])
  have step: "loop_body retry_tape [] ?s0 = Some (Inr ?s1)"
    by (simp add: loop_body_def game_logic_def move_def get_head_position_def
          check_collision_with_self_def Snake_init_def SNAKE_BLOCK_SIZE_def
          screen_width_def screen_height_def)
  have r1: "reachable retry_tape ?s1"
    by (rule reachable.pass [OF r0 _ step]) simp
  from coordinate_lattice_invariant [OF r1] r1 show ?thesis
    by (simp add: Snake_init_def)
qed

text \<open>
  The food check never succeeds in a run of the program: the snake starts at (390, 290),
  half a block off the grid of the food, and every move is a whole block. So the score
  stays 0 and the length stays 1.
\<close>

lemma move_lattice:
  assumes "move s = Inr s'"
    and "\<forall>p \<in> set (positions s). fst p mod 20 = 10 \<and> snd p mod 20 = 10"
  shows "\<forall>p \<in> set (positions s'). fst p mod 20 = 10 \<and> snd p mod 20 = 10"
proof
  fix p assume p: "p \<in> set (positions s')"
  from move_result [OF assms(1)] obtain h rest where
    hr: "positions s = h # rest"
    and sub: "set (positions s') \<subseteq>
              insert (fst h + fst (direction s) * 20, snd h + snd (direction s) * 20)
                     (set (positions s))"
    by blast
  from hr assms(2) have h: "fst h mod 20 = 10 \<and> snd h mod 20 = 10" by simp
  then have new: "(fst h + dx * 20) mod 20 = 10 \<and> (snd h + dy * 20) mod 20 = 10" for dx dy
    by simp
  from p sub have "p = (fst h + fst (direction s) * 20, snd h + snd (direction s) * 20) \<or>
                   p \<in> set (positions s)"
    by auto
  with assms(2) new show "fst p mod 20 = 10 \<and> snd p mod 20 = 10" by auto
qed

lemma off_lattice_head:
  assumes "\<forall>p \<in> set (positions s). fst p mod 20 = 10 \<and> snd p mod 20 = 10"
    and "fst q mod 20 = 0"
  shows "get_head_position s \<noteq> Inr q"
  using assms by (cases "positions s") (auto simp: get_head_position_def)

lemma reachable_never_eats:
  assumes "reachable t st"
  shows "score (snake st) = 0 \<and> length_snake (snake st) = 1"
  using assms
proof (induction rule: reachable.induct)
  case (start st)
  then show ?case by (auto simp: startup_returns Snake_init_def)
next
  case (pass st evs st')
  note lat = reachable_lattice [OF pass.hyps(1)]
  show ?case
  proof (cases "game_active st")
    case True
    let ?st1 = "foldl active_event st evs"
    note keep = active_events_keep [of st evs]
    from True pass.hyps(3) have "game_logic t ?st1 = Some (Inr st')"
      by (simp add: loop_body_def)
    from game_logic_result [OF this] obtain sn where
      mv: "move (snake ?st1) = Inr sn"
      and alt: "snake st' = sn \<or> get_head_position sn = Inr (position (food ?st1))"
      by auto
    from lat keep have "\<forall>p \<in> set (positions (snake ?st1)). fst p mod 20 = 10 \<and> snd p mod 20 = 10"
      by simp
    from move_lattice [OF mv this] lat keep
    have "get_head_position sn \<noteq> Inr (position (food ?st1))"
      by (intro off_lattice_head) simp_all
    with alt have "snake st' = sn" by simp
    with move_keeps [OF mv] keep pass.IH show ?thesis by simp
  next
    case False
    with pass.hyps(3) have "over_events t st evs = Some st'"
      by (auto simp: loop_body_def)
    from over_events_result [OF this] pass.IH show ?thesis
      by (auto simp: Snake_init_def)
  qed
qed

text \<open>
  Claim C1. The program does not do what the claim says. In a freshly reset game where
  the food is in the cell to the right of the head's cell (the draws are 20 and 14, the
  food is at (400, 280), in cell (20, 14), and the head at (390, 290) is in cell (19, 14)),
  a pass of the main loop with no input moves the head into the cell of the food, to
  (410, 290), and the food is not consumed: the score is still 0, the length still 1, the
  food where it was.
\<close>

theorem fresh_session_never_consumes:
  "startup aim_tape =
     Some \<lparr>snake = Snake_init 390 290, food = \<lparr>position = (400, 280)\<rparr>, game_active = True,
           game_over_state = False, running = True, rng_pos = 2\<rparr> \<and>
   cell_of (390, 290) = (19, 14) \<and> cell_of (400, 280) = (20, 14) \<and>
   loop_body aim_tape []
     \<lparr>snake = Snake_init 390 290, food = \<lparr>position = (400, 280)\<rparr>, game_active = True,
      game_over_state = False, running = True, rng_pos = 2\<rparr> =
     Some (Inr \<lparr>snake = Snake_init 410 290, food = \<lparr>position = (400, 280)\<rparr>,
                game_active = True, game_over_state = False, running = True,
                rng_pos = 2\<rparr>) \<and>
   cell_of (410, 290) = cell_of (400, 280) \<and>
   score (Snake_init 410 290) = 0 \<and> length_snake (Snake_init 410 290) = 1"
proof -
  have s0: "sample aim_tape 0 = (400, 280)"
    by (simp add: sample_def aim_tape_def randrange_def FOOD_BLOCK_SIZE_def
          screen_width_def screen_height_def)
  have "loop_body aim_tape []
     \<lparr>snake = Snake_init 390 290, food = \<lparr>position = (400, 280)\<rparr>, game_active = True,
      game_over_state = False, running = True, rng_pos = 2\<rparr> =
     Some (Inr \<lparr>snake = Snake_init 410 290, food = \<lparr>position = (400, 280)\<rparr>,
                game_active = True, game_over_state = False, running = True,
                rng_pos = 2\<rparr>)"
    by (simp add: loop_body_def game_logic_def move_def get_head_position_def
          check_collision_with_self_def Snake_init_def SNAKE_BLOCK_SIZE_def
          screen_width_def screen_height_def)
  then show ?thesis
    by (simp add: startup_returns s0 cell_of_def SNAKE_BLOCK_SIZE_def Snake_init_def)
qed

text \<open>
  In the program itself the loop of \<^verbatim>\<open>randomize_position\<close> is left at the first
  pass, whatever the random source draws, and every pass of the main loop returns.
\<close>

lemma over_events_return: "\<exists>st'. over_events t st evs = Some st'"
proof (induction evs arbitrary: st)
  case Nil
  show ?case by simp
next
  case (Cons e evs)
  have "\<exists>st1. over_event t st e = Some st1"
    by (cases "(t, st, e)" rule: over_event.cases) (simp_all add: reset_game_returns Let_def)
  then obtain st1 where "over_event t st e = Some st1" ..
  with Cons.IH [of st1] show ?case by simp
qed

lemma game_logic_returns:
  assumes "\<forall>p \<in> set (positions (snake st)). fst p mod 20 = 10 \<and> snd p mod 20 = 10"
  shows "\<exists>r. game_logic t st = Some r"
proof (cases "move (snake st)")
  case (Inl e)
  then show ?thesis by (simp add: game_logic_def)
next
  case (Inr sn)
  from move_lattice [OF Inr assms]
  have "\<forall>p \<in> set (positions (grow sn)). fst p mod 20 \<noteq> 0"
    by (simp add: grow_def)
  then have "sample t k \<notin> set (positions (grow sn))" for k
    by (rule sample_off_lattice)
  then have rp: "randomize_position t k f (positions (grow sn)) =
                 Some (f\<lparr>position := sample t k\<rparr>, k + 2)" for k f
    by (rule randomize_position_first_draw)
  show ?thesis
    by (auto simp: game_logic_def Inr Let_def rp split: sum.splits prod.splits)
qed

lemma loop_body_returns:
  assumes "reachable t st"
  shows "\<exists>r. loop_body t evs st = Some r"
proof (cases "game_active st")
  case True
  from reachable_lattice [OF assms] active_events_keep [of st evs]
  have "\<forall>p \<in> set (positions (snake (foldl active_event st evs))).
          fst p mod 20 = 10 \<and> snd p mod 20 = 10"
    by simp
  from game_logic_returns [OF this] True show ?thesis by (simp add: loop_body_def)
next
  case False
  with over_events_return [of t st evs] show ?thesis by (auto simp: loop_body_def)
qed

end
